theory Spec2Isabelle
  imports Main
begin

section \<open>The virtual memory simulator of \<^verbatim>\<open>vmsim.py\<close>\<close>

text \<open>
  A shallow embedding of \<^verbatim>\<open>src/vmsim.py\<close>. Classes are records, the dynamic class of a
  page table (\<^verbatim>\<open>OptimalTable\<close>, \<^verbatim>\<open>LRUTable\<close>, \<^verbatim>\<open>SecondChanceTable\<close>) is a field of
  the table record, mutation is explicit state passing, and every exception the Python
  can raise is a value \<open>Inl e\<close> of the result type \<open>error + 'a\<close>. A Python reference
  to a \<^verbatim>\<open>PageTableEntry\<close> of \<^verbatim>\<open>self.table\<close> is the position of that entry in the
  list: the list is built once, by a comprehension, and holds distinct objects.
  Trace records are pairs of the access type (a string) and the address (a Python
  integer); splitting the lines of the trace file and reading the hexadecimal
  number are not modelled.
\<close>

subsection \<open>Errors and Python's indexing\<close>

datatype error =
    InvalidAccessType    \<comment> \<open>\<^verbatim>\<open>ValueError\<close> of \<^verbatim>\<open>PageTableEntry.access\<close>\<close>
  | InvalidEvictionType  \<comment> \<open>\<^verbatim>\<open>ValueError\<close> of \<^verbatim>\<open>createPageTable\<close>\<close>
  | NoRoom               \<comment> \<open>\<^verbatim>\<open>RuntimeError\<close> of \<^verbatim>\<open>PageTable.load\<close>\<close>
  | NoNextUse            \<comment> \<open>\<^verbatim>\<open>ValueError\<close> of \<^verbatim>\<open>entryNextUsedAt\<close>\<close>
  | EmptyMax             \<comment> \<open>\<^verbatim>\<open>ValueError\<close>: \<^verbatim>\<open>max\<close> of an empty list\<close>
  | IndexError
  | KeyError
  | AttributeError       \<comment> \<open>a method called on \<^verbatim>\<open>None\<close>\<close>
  | ZeroDivisionError

definition py_position :: "'a list \<Rightarrow> int \<Rightarrow> error + nat" where
  \<comment> \<open>The position that \<^verbatim>\<open>xs[i]\<close> reads. Python counts a negative index from the end
      of the list and raises when the index is out of range.\<close>
  "py_position xs i =
     (if 0 \<le> i \<and> i < int (length xs) then Inr (nat i)
      else if - int (length xs) \<le> i \<and> i < 0 then Inr (nat (int (length xs) + i))
      else Inl IndexError)"

definition py_index :: "'a list \<Rightarrow> int \<Rightarrow> error + 'a" where
  \<comment> \<open>\<^verbatim>\<open>xs[i]\<close>\<close>
  "py_index xs i = (case py_position xs i of Inl e \<Rightarrow> Inl e | Inr j \<Rightarrow> Inr (xs ! j))"

fun first_index :: "('a \<Rightarrow> bool) \<Rightarrow> 'a list \<Rightarrow> nat option" where
  \<comment> \<open>\<^verbatim>\<open>for x in xs: if P(x): return x\<close>, as the position of the element returned.\<close>
  "first_index P [] = None"
| "first_index P (x # xs) = (if P x then Some 0 else map_option Suc (first_index P xs))"

subsection \<open>Page\<close>

record Page =
  page_offset :: nat
  page_number :: int

definition new_Page :: "int \<Rightarrow> nat \<Rightarrow> Page" where
  \<comment> \<open>\<^verbatim>\<open>address >> offset\<close> on Python integers rounds towards minus infinity.\<close>
  "new_Page address offset_bits =
     \<lparr>page_offset = offset_bits, page_number = address div 2 ^ offset_bits\<rparr>"

definition getPageNumber :: "Page \<Rightarrow> int" where
  "getPageNumber pg = page_number pg"

definition contains :: "Page \<Rightarrow> int \<Rightarrow> bool" where
  "contains pg address \<longleftrightarrow> page_number pg = address div 2 ^ page_offset pg"

subsection \<open>PageTableEntry\<close>

record PageTableEntry =
  offset :: nat
  page :: "Page option"
  dirty :: bool
  most_recent_access :: nat
  num_accesses :: nat
  second_chance :: bool

definition new_PageTableEntry :: "nat \<Rightarrow> PageTableEntry" where
  "new_PageTableEntry offset_bits =
     \<lparr>offset = offset_bits, page = None, dirty = False, most_recent_access = 0,
      num_accesses = 0, second_chance = False\<rparr>"

definition setPage :: "PageTableEntry \<Rightarrow> int \<Rightarrow> PageTableEntry" where
  "setPage e address = e\<lparr>page := Some (new_Page address (offset e)), second_chance := False\<rparr>"

definition hasPage :: "PageTableEntry \<Rightarrow> bool" where
  "hasPage e \<longleftrightarrow> page e \<noteq> None"

definition isDirty :: "PageTableEntry \<Rightarrow> bool" where
  "isDirty e = dirty e"

definition hasSecondChance :: "PageTableEntry \<Rightarrow> bool" where
  "hasSecondChance e = second_chance e"

definition losesChance :: "PageTableEntry \<Rightarrow> PageTableEntry" where
  "losesChance e = e\<lparr>second_chance := False\<rparr>"

definition entry_load :: "PageTableEntry \<Rightarrow> nat \<Rightarrow> PageTableEntry" where
  \<comment> \<open>\<^verbatim>\<open>PageTableEntry.load\<close>\<close>
  "entry_load e access_index =
     e\<lparr>most_recent_access := access_index, num_accesses := num_accesses e + 1\<rparr>"

definition entry_store :: "PageTableEntry \<Rightarrow> nat \<Rightarrow> PageTableEntry" where
  \<comment> \<open>\<^verbatim>\<open>PageTableEntry.store\<close>\<close>
  "entry_store e access_index = e\<lparr>most_recent_access := access_index, dirty := True\<rparr>"

definition access :: "PageTableEntry \<Rightarrow> string \<Rightarrow> nat \<Rightarrow> error + PageTableEntry" where
  "access e access_type access_index =
     (if access_type = ''l'' then Inr (entry_load e access_index)
      else if access_type = ''s'' then Inr (entry_store e access_index)
      else Inl InvalidAccessType)"

definition clear :: "PageTableEntry \<Rightarrow> PageTableEntry" where
  "clear e = e\<lparr>page := None, dirty := False, most_recent_access := 0, num_accesses := 0\<rparr>"

subsection \<open>PageTable\<close>

datatype policy = OptimalTable | LRUTable | SecondChanceTable

record PageTable =
  policy_of :: policy  \<comment> \<open>the class of the object, which selects \<^verbatim>\<open>evict\<close>\<close>
  table_size :: int    \<comment> \<open>\<^verbatim>\<open>self.size\<close>\<close>
  table :: "PageTableEntry list"
  page_faults :: nat
  writes_to_disk :: nat
  trace_indices :: "int \<rightharpoonup> nat list"
  round_robin_index :: int  \<comment> \<open>read and written by \<^verbatim>\<open>SecondChanceTable\<close> only\<close>

definition new_PageTable :: "policy \<Rightarrow> int \<Rightarrow> nat \<Rightarrow> (int \<rightharpoonup> nat list) \<Rightarrow> PageTable" where
  \<comment> \<open>\<^verbatim>\<open>range(n)\<close> is empty for a negative \<open>n\<close>; the cursor starts at \<open>-1\<close>.\<close>
  "new_PageTable pol num_frames page_size ti =
     \<lparr>policy_of = pol, table_size = num_frames,
      table = replicate (nat num_frames) (new_PageTableEntry page_size),
      page_faults = 0, writes_to_disk = 0, trace_indices = ti, round_robin_index = - 1\<rparr>"

definition getTableEntryByAddress :: "PageTable \<Rightarrow> int \<Rightarrow> nat option" where
  "getTableEntryByAddress st address =
     first_index (\<lambda>e. case page e of None \<Rightarrow> False | Some pg \<Rightarrow> contains pg address) (table st)"

definition tableIsFull :: "PageTable \<Rightarrow> bool" where
  "tableIsFull st \<longleftrightarrow> first_index (\<lambda>e. \<not> hasPage e) (table st) = None"

definition load :: "PageTable \<Rightarrow> int \<Rightarrow> error + (nat \<times> PageTable)" where
  \<comment> \<open>\<^verbatim>\<open>PageTable.load\<close>: the entry returned, as its position, and the table.\<close>
  "load st address =
     (case first_index (\<lambda>e. \<not> hasPage e) (table st) of
        None \<Rightarrow> Inl NoRoom
      | Some i \<Rightarrow> Inr (i, st\<lparr>table := (table st)[i := setPage (table st ! i) address]\<rparr>))"

definition clearEntry :: "PageTable \<Rightarrow> nat \<Rightarrow> PageTable" where
  \<comment> \<open>The entry is given by its position, which every caller has read from the table.\<close>
  "clearEntry st i =
     (let entry = table st ! i;
          st' = (if isDirty entry then st\<lparr>writes_to_disk := writes_to_disk st + 1\<rparr> else st)
      in st'\<lparr>table := (table st')[i := clear entry]\<rparr>)"

subsection \<open>The lookahead of OPT\<close>

function bs_loop :: "nat list \<Rightarrow> nat \<Rightarrow> int \<Rightarrow> int \<Rightarrow> int \<Rightarrow> error + int" where
  \<comment> \<open>The \<^verbatim>\<open>while\<close> loop of \<^verbatim>\<open>findFirstElementGreaterThan\<close> over \<open>l\<close>, \<open>r\<close>, \<open>ans\<close>.\<close>
  "bs_loop array index l r ans =
     (if l \<le> r then
        (let mid = l + (r - l) div 2 in
         case py_index array mid of
           Inl e \<Rightarrow> Inl e
         | Inr x \<Rightarrow>
             if x \<le> index then bs_loop array index (mid + 1) r ans
             else bs_loop array index l (mid - 1) mid)
      else Inr ans)"
  by pat_completeness auto
termination
  by (relation "measure (\<lambda>(array, index, l, r, ans). nat (r - l + 1))") auto

declare bs_loop.simps [simp del]

definition findFirstElementGreaterThan :: "nat list \<Rightarrow> nat \<Rightarrow> error + int" where
  "findFirstElementGreaterThan array index = bs_loop array index 0 (int (length array) - 1) (- 1)"

definition entryNextUsedAt :: "PageTable \<Rightarrow> PageTableEntry \<Rightarrow> nat \<Rightarrow> error + nat" where
  "entryNextUsedAt st page_table_entry index =
     (case page page_table_entry of
        None \<Rightarrow> Inl AttributeError
      | Some pg \<Rightarrow>
          (case trace_indices st (getPageNumber pg) of
             None \<Rightarrow> Inl KeyError
           | Some page_used_at \<Rightarrow>
               (case findFirstElementGreaterThan page_used_at index of
                  Inl e \<Rightarrow> Inl e
                | Inr first_element_greater_than \<Rightarrow>
                    if first_element_greater_than = - 1 then Inl NoNextUse
                    else (case findFirstElementGreaterThan page_used_at index of
                            Inl e \<Rightarrow> Inl e
                          | Inr i \<Rightarrow> py_index page_used_at i))))"

definition entryIsNotUsedAgain :: "PageTable \<Rightarrow> PageTableEntry \<Rightarrow> nat \<Rightarrow> error + bool" where
  "entryIsNotUsedAgain st page_table_entry index =
     (case page page_table_entry of
        None \<Rightarrow> Inl AttributeError
      | Some pg \<Rightarrow>
          (case trace_indices st (getPageNumber pg) of
             None \<Rightarrow> Inl KeyError
           | Some page_used_at \<Rightarrow>
               (case py_index page_used_at (- 1) of
                  Inl e \<Rightarrow> Inl e
                | Inr last_use \<Rightarrow> Inr (last_use < index))))"

subsection \<open>The three eviction methods\<close>

fun lru_scan :: "PageTableEntry list \<Rightarrow> nat \<Rightarrow> nat list \<Rightarrow> nat" where
  \<comment> \<open>\<^verbatim>\<open>for entry in rest: if entry.most_recent_access < least_recently_used.most_recent_access:
      least_recently_used = entry\<close>, over positions.\<close>
  "lru_scan tbl least_recently_used [] = least_recently_used"
| "lru_scan tbl least_recently_used (j # js) =
     lru_scan tbl
       (if most_recent_access (tbl ! j) < most_recent_access (tbl ! least_recently_used)
        then j else least_recently_used) js"

definition evict_lru :: "PageTable \<Rightarrow> nat \<Rightarrow> error + PageTable" where
  \<comment> \<open>\<^verbatim>\<open>LRUTable.evict\<close>; \<^verbatim>\<open>self.table[0]\<close> raises on an empty table.\<close>
  "evict_lru st index =
     (if table st = [] then Inl IndexError
      else Inr (clearEntry st (lru_scan (table st) 0 [1..<length (table st)])))"

fun filter_positions :: "(PageTableEntry \<Rightarrow> error + bool) \<Rightarrow> PageTableEntry list \<Rightarrow> nat \<Rightarrow> error + nat list" where
  \<comment> \<open>\<^verbatim>\<open>[entry for entry in es if P(entry)]\<close>, as positions counted from \<open>i\<close>.\<close>
  "filter_positions P [] i = Inr []"
| "filter_positions P (e # es) i =
     (case P e of
        Inl err \<Rightarrow> Inl err
      | Inr b \<Rightarrow>
          (case filter_positions P es (Suc i) of
             Inl err \<Rightarrow> Inl err
           | Inr js \<Rightarrow> Inr (if b then i # js else js)))"

fun map_err :: "('a \<Rightarrow> error + 'b) \<Rightarrow> 'a list \<Rightarrow> error + 'b list" where
  \<comment> \<open>\<^verbatim>\<open>[f(x) for x in xs]\<close>\<close>
  "map_err f [] = Inr []"
| "map_err f (x # xs) =
     (case f x of
        Inl err \<Rightarrow> Inl err
      | Inr y \<Rightarrow> (case map_err f xs of Inl err \<Rightarrow> Inl err | Inr ys \<Rightarrow> Inr (y # ys)))"

fun max_list :: "nat list \<Rightarrow> error + nat" where
  \<comment> \<open>Python's \<^verbatim>\<open>max\<close>\<close>
  "max_list [] = Inl EmptyMax"
| "max_list (x # xs) = Inr (fold max xs x)"

fun list_index :: "nat list \<Rightarrow> nat \<Rightarrow> nat" where
  \<comment> \<open>\<^verbatim>\<open>xs.index(v)\<close> for a \<open>v\<close> that occurs in \<open>xs\<close>\<close>
  "list_index [] v = 0"
| "list_index (x # xs) v = (if x = v then 0 else Suc (list_index xs v))"

definition evict_opt :: "PageTable \<Rightarrow> nat \<Rightarrow> error + PageTable" where
  \<comment> \<open>\<^verbatim>\<open>OptimalTable.evict\<close>\<close>
  "evict_opt st index =
     (case filter_positions (\<lambda>entry. entryIsNotUsedAgain st entry index) (table st) 0 of
        Inl e \<Rightarrow> Inl e
      | Inr never_used_again \<Rightarrow>
          if length never_used_again > 0 then
            Inr (clearEntry st (lru_scan (table st) (hd never_used_again) (tl never_used_again)))
          else
            (case map_err (\<lambda>entry. entryNextUsedAt st entry index) (table st) of
               Inl e \<Rightarrow> Inl e
             | Inr next_used \<Rightarrow>
                 (case max_list next_used of
                    Inl e \<Rightarrow> Inl e
                  | Inr m \<Rightarrow> Inr (clearEntry st (list_index next_used m)))))"

lemma count_flags_decrease:
  "i < length tbl \<Longrightarrow> second_chance (tbl ! i) \<Longrightarrow>
   length (filter second_chance (tbl[i := losesChance (tbl ! i)])) < length (filter second_chance tbl)"
proof (induction tbl arbitrary: i)
  case Nil
  then show ?case by simp
next
  case (Cons e es)
  show ?case
  proof (cases i)
    case 0
    with Cons.prems show ?thesis by (simp add: losesChance_def)
  next
    case (Suc j)
    with Cons.prems
    have "length (filter second_chance (es[j := losesChance (es ! j)])) < length (filter second_chance es)"
      by (intro Cons.IH) simp_all
    with Suc show ?thesis by simp
  qed
qed

function evict_second :: "PageTable \<Rightarrow> nat \<Rightarrow> error + PageTable" where
  \<comment> \<open>\<^verbatim>\<open>SecondChanceTable.evict\<close>: one unfolding is one pass of the \<^verbatim>\<open>while\<close> loop.\<close>
  "evict_second st index =
     (if table_size st = 0 then Inl ZeroDivisionError
      else
        (let st1 = st\<lparr>round_robin_index := (round_robin_index st + 1) mod table_size st\<rparr> in
         case py_position (table st1) (round_robin_index st1) of
           Inl e \<Rightarrow> Inl e
         | Inr i \<Rightarrow>
             if hasSecondChance (table st1 ! i) then
               evict_second (st1\<lparr>table := (table st1)[i := losesChance (table st1 ! i)]\<rparr>) index
             else Inr (clearEntry st1 i)))"
  by pat_completeness auto

termination
  apply (relation "measure (\<lambda>(st, index). length (filter second_chance (table st)))")
   apply simp
  apply (auto simp: py_position_def hasSecondChance_def Let_def split: if_splits
      intro!: count_flags_decrease)
  done

declare evict_second.simps [simp del]

definition evict :: "PageTable \<Rightarrow> nat \<Rightarrow> error + PageTable" where
  \<comment> \<open>The method \<^verbatim>\<open>evict\<close> of the table's class.\<close>
  "evict st index =
     (case policy_of st of
        OptimalTable \<Rightarrow> evict_opt st index
      | LRUTable \<Rightarrow> evict_lru st index
      | SecondChanceTable \<Rightarrow> evict_second st index)"

definition evictAndLoad :: "PageTable \<Rightarrow> int \<Rightarrow> nat \<Rightarrow> error + (nat \<times> PageTable)" where
  "evictAndLoad st address index =
     (if tableIsFull st then
        (case evict st index of Inl e \<Rightarrow> Inl e | Inr st' \<Rightarrow> load st' address)
      else load st address)"

definition query :: "PageTable \<Rightarrow> int \<Rightarrow> string \<Rightarrow> nat \<Rightarrow> error + PageTable" where
  "query st address access_type index =
     (case getTableEntryByAddress st address of
        Some i \<Rightarrow>
          (case access (table st ! i) access_type index of
             Inl e \<Rightarrow> Inl e
           | Inr pte \<Rightarrow> Inr (st\<lparr>table := (table st)[i := pte\<lparr>second_chance := True\<rparr>]\<rparr>))
      | None \<Rightarrow>
          (case evictAndLoad st address index of
             Inl e \<Rightarrow> Inl e
           | Inr (i, st') \<Rightarrow>
               (case access (table st' ! i) access_type index of
                  Inl e \<Rightarrow> Inl e
                | Inr pte \<Rightarrow>
                    Inr (st'\<lparr>table := (table st')[i := pte], page_faults := page_faults st' + 1\<rparr>))))"

subsection \<open>VirtualMemorySimulator\<close>

type_synonym trace = "(string \<times> int) list"

fun index_trace :: "nat \<Rightarrow> nat \<Rightarrow> trace \<Rightarrow> (int \<rightharpoonup> nat list) \<Rightarrow> (int \<rightharpoonup> nat list)" where
  \<comment> \<open>The first pass of the constructor, for \<^verbatim>\<open>opt\<close>: the records from \<open>index\<close> on.\<close>
  "index_trace offset_bits index [] ti = ti"
| "index_trace offset_bits index ((access_type, address) # rest) ti =
     (let page_number = address div 2 ^ offset_bits in
      index_trace offset_bits (Suc index) rest
        (case ti page_number of
           Some positions \<Rightarrow> ti(page_number \<mapsto> positions @ [index])
         | None \<Rightarrow> ti(page_number \<mapsto> [index])))"

definition createPageTable :: "int \<Rightarrow> nat \<Rightarrow> string \<Rightarrow> (int \<rightharpoonup> nat list) \<Rightarrow> error + PageTable" where
  "createPageTable num_frames offset_bits eviction_type ti =
     (if eviction_type = ''opt'' then Inr (new_PageTable OptimalTable num_frames offset_bits ti)
      else if eviction_type = ''lru'' then Inr (new_PageTable LRUTable num_frames offset_bits ti)
      else if eviction_type = ''second'' then
        Inr (new_PageTable SecondChanceTable num_frames offset_bits ti)
      else Inl InvalidEvictionType)"

record VirtualMemorySimulator =
  source_file :: trace
  sim_offset_bits :: nat
  mem_accesses :: nat
  page_table :: PageTable

definition new_VirtualMemorySimulator ::
  "trace \<Rightarrow> int \<Rightarrow> string \<Rightarrow> nat \<Rightarrow> error + VirtualMemorySimulator" where
  "new_VirtualMemorySimulator trace_file num_frames eviction_type offset_bits =
     (let ti = (if eviction_type = ''opt'' then index_trace offset_bits 0 trace_file Map.empty
                else Map.empty)
      in case createPageTable num_frames offset_bits eviction_type ti of
           Inl e \<Rightarrow> Inl e
         | Inr pt \<Rightarrow>
             Inr \<lparr>source_file = trace_file, sim_offset_bits = offset_bits,
                  mem_accesses = length trace_file, page_table = pt\<rparr>)"

fun replay :: "nat \<Rightarrow> trace \<Rightarrow> PageTable \<Rightarrow> error + PageTable" where
  \<comment> \<open>The loop of \<^verbatim>\<open>run\<close>, over the records from \<open>index\<close> on.\<close>
  "replay index [] st = Inr st"
| "replay index ((access_type, address) # rest) st =
     (case query st address access_type index of
        Inl e \<Rightarrow> Inl e
      | Inr st' \<Rightarrow> replay (Suc index) rest st')"

record statistics =
  memory_accesses :: nat
  total_page_faults :: nat
  total_writes_to_disk :: nat

definition run :: "VirtualMemorySimulator \<Rightarrow> error + statistics" where
  "run sim =
     (case replay 0 (source_file sim) (page_table sim) of
        Inl e \<Rightarrow> Inl e
      | Inr st \<Rightarrow>
          Inr \<lparr>memory_accesses = mem_accesses sim, total_page_faults = page_faults st,
               total_writes_to_disk = writes_to_disk st\<rparr>)"

definition simulate :: "trace \<Rightarrow> int \<Rightarrow> string \<Rightarrow> nat \<Rightarrow> error + statistics" where
  \<comment> \<open>Construct the simulator and run it, as the main program does.\<close>
  "simulate trace_file num_frames eviction_type offset_bits =
     (case new_VirtualMemorySimulator trace_file num_frames eviction_type offset_bits of
        Inl e \<Rightarrow> Inl e
      | Inr sim \<Rightarrow> run sim)"
section \<open>Definitions used to state the properties\<close>

text \<open>
  The definitions of this section are not translations of the source: they are the
  words of the specification, and the concrete inputs at which theorems are
  instantiated.
\<close>

subsection \<open>The lookahead of OPT\<close>

definition first_greater :: "nat list \<Rightarrow> nat \<Rightarrow> int" where
  \<comment> \<open>The position of the first element greater than \<open>index\<close>, by a linear scan.\<close>
  "first_greater array index =
     (case first_index (\<lambda>x. index < x) array of None \<Rightarrow> - 1 | Some p \<Rightarrow> int p)"

definition example_entry :: PageTableEntry where
  "example_entry = setPage (new_PageTableEntry 12) 0x5000"

definition example_table :: PageTable where
  "example_table = new_PageTable OptimalTable 1 12 [5 \<mapsto> [1, 4, 7]]"

subsection \<open>The concrete scenario of the specification\<close>

definition frame_pages :: "PageTable \<Rightarrow> int option list" where
  \<comment> \<open>The page number held by each frame, in the order of the table.\<close>
  "frame_pages st = map (\<lambda>e. map_option getPageNumber (page e)) (table st)"

definition scenario_trace :: trace where
  "scenario_trace = [(''l'', 0x1000), (''l'', 0x2000), (''l'', 0x3000), (''l'', 0x1000)]"

definition scenario_state :: "string \<Rightarrow> nat \<Rightarrow> error + PageTable" where
  \<comment> \<open>The table after the first \<open>k\<close> records of the scenario, with two frames.\<close>
  "scenario_state eviction_type k =
     (case new_VirtualMemorySimulator scenario_trace 2 eviction_type 12 of
        Inl e \<Rightarrow> Inl e
      | Inr sim \<Rightarrow> replay 0 (take k scenario_trace) (page_table sim))"

definition faults_and_frames :: "error + PageTable \<Rightarrow> error + nat \<times> int option list" where
  "faults_and_frames r = (case r of Inl e \<Rightarrow> Inl e | Inr st \<Rightarrow> Inr (page_faults st, frame_pages st))"


subsection \<open>Least recently used\<close>

definition first_min_access :: "PageTableEntry list \<Rightarrow> nat set \<Rightarrow> nat \<Rightarrow> bool" where
  \<comment> \<open>Among the positions \<open>S\<close>, \<open>v\<close> has the smallest \<open>most_recent_access\<close> and is the
      earliest position that has it.\<close>
  "first_min_access tbl S v \<longleftrightarrow>
     v \<in> S \<and>
     (\<forall>j \<in> S. most_recent_access (tbl ! v) \<le> most_recent_access (tbl ! j) \<and>
        (j < v \<longrightarrow> most_recent_access (tbl ! v) < most_recent_access (tbl ! j)))"

definition lru_example :: PageTable where
  "lru_example =
     (new_PageTable LRUTable 3 12 Map.empty)
       \<lparr>table :=
          [entry_load (setPage (new_PageTableEntry 12) 0x1000) 5,
           entry_store (setPage (new_PageTableEntry 12) 0x2000) 2,
           entry_load (setPage (new_PageTableEntry 12) 0x3000) 2]\<rparr>"
section \<open>The binary search and the next-use lookup\<close>

lemma first_index_None_iff: "first_index P xs = None \<longleftrightarrow> (\<forall>x \<in> set xs. \<not> P x)"
  by (induction xs) auto

lemma first_index_Some_iff:
  "first_index P xs = Some k \<longleftrightarrow> k < length xs \<and> P (xs ! k) \<and> (\<forall>j < k. \<not> P (xs ! j))"
proof (induction xs arbitrary: k)
  case Nil
  then show ?case by simp
next
  case (Cons x xs)
  show ?case
  proof (cases "P x")
    case True
    then show ?thesis by (cases k) auto
  next
    case False
    show ?thesis
    proof (cases k)
      case 0
      with False show ?thesis by auto
    next
      case (Suc m)
      have "(\<forall>j<Suc m. \<not> P ((x # xs) ! j)) \<longleftrightarrow> (\<forall>j<m. \<not> P (xs ! j))"
        using False by (auto simp: less_Suc_eq_0_disj)
      with False Suc Cons.IH[of m] show ?thesis by auto
    qed
  qed
qed

lemma py_index_in_range: "0 \<le> i \<Longrightarrow> i < int (length xs) \<Longrightarrow> py_index xs i = Inr (xs ! nat i)"
  by (simp add: py_index_def py_position_def)

lemma bs_loop_correct:
  assumes "sorted array"
    and "0 \<le> l" and "r < int (length array)" and "l \<le> r + 1"
    and "\<forall>p. int p < l \<longrightarrow> array ! p \<le> index"
    and "\<forall>p. r < int p \<and> p < length array \<longrightarrow> index < array ! p"
    and "ans = (if r + 1 < int (length array) then r + 1 else - 1)"
  shows "bs_loop array index l r ans = Inr (first_greater array index)"
  using assms
proof (induction array index l r ans rule: bs_loop.induct)
  case (1 array index l r ans)
  show ?case
  proof (cases "l \<le> r")
    case False
    with "1.prems" have lr: "l = r + 1" by simp
    have stop: "bs_loop array index l r ans = Inr ans"
      using False by (subst bs_loop.simps) simp
    show ?thesis
    proof (cases "r + 1 < int (length array)")
      case True
      have "first_index (\<lambda>x. index < x) array = Some (nat l)"
        unfolding first_index_Some_iff using True lr "1.prems"(2,5,6)
        by (auto simp: not_less)
      with lr True "1.prems"(2,7) show ?thesis
        unfolding stop by (simp add: first_greater_def)
    next
      case F2: False
      have "first_index (\<lambda>x. index < x) array = None"
        unfolding first_index_None_iff
      proof
        fix x assume "x \<in> set array"
        then obtain p where "p < length array" "array ! p = x" by (auto simp: in_set_conv_nth)
        with F2 lr "1.prems"(5)[rule_format, of p] show "\<not> index < x" by auto
      qed
      with F2 "1.prems"(7) show ?thesis
        unfolding stop by (simp add: first_greater_def)
    qed
  next
    case True
    define mid where "mid = l + (r - l) div 2"
    have mid: "l \<le> mid" "mid \<le> r" using True by (auto simp: mid_def)
    with "1.prems" have inr: "0 \<le> mid" "mid < int (length array)" by auto
    then have px: "py_index array mid = Inr (array ! nat mid)" by (rule py_index_in_range)
    have step: "bs_loop array index l r ans =
        (if array ! nat mid \<le> index then bs_loop array index (mid + 1) r ans
         else bs_loop array index l (mid - 1) mid)"
      using True px by (subst bs_loop.simps) (simp add: mid_def Let_def)
    show ?thesis
    proof (cases "array ! nat mid \<le> index")
      case le: True
      have below: "\<forall>p. int p < mid + 1 \<longrightarrow> array ! p \<le> index"
      proof (intro allI impI)
        fix p assume "int p < mid + 1"
        then have "p \<le> nat mid" by simp
        with \<open>sorted array\<close> inr have "array ! p \<le> array ! nat mid"
          by (intro sorted_nth_mono) auto
        with le show "array ! p \<le> index" by simp
      qed
      have "bs_loop array index (mid + 1) r ans = Inr (first_greater array index)"
        using "1.IH"(1)[OF True mid_def px le] "1.prems" mid inr below by auto
      with le show ?thesis unfolding step by simp
    next
      case gt: False
      have above: "\<forall>p. mid - 1 < int p \<and> p < length array \<longrightarrow> index < array ! p"
      proof (intro allI impI)
        fix p assume "mid - 1 < int p \<and> p < length array"
        then have "nat mid \<le> p" "p < length array" by auto
        with \<open>sorted array\<close> have "array ! nat mid \<le> array ! p"
          by (intro sorted_nth_mono) auto
        with gt show "index < array ! p" by simp
      qed
      have "bs_loop array index l (mid - 1) mid = Inr (first_greater array index)"
        using "1.IH"(2)[OF True mid_def px gt] "1.prems" mid inr above by auto
      with gt show ?thesis unfolding step by simp
    qed
  qed
qed

lemma findFirstElementGreaterThan_correct:
  assumes "sorted array"
  shows "findFirstElementGreaterThan array index = Inr (first_greater array index)"
  unfolding findFirstElementGreaterThan_def
  using assms by (intro bs_loop_correct) auto


lemma first_greater_nonneg_iff:
  "first_greater array index \<noteq> - 1 \<longleftrightarrow> (\<exists>x \<in> set array. index < x)"
proof (cases "first_index (\<lambda>x. index < x) array")
  case None
  then have "\<not> (\<exists>x \<in> set array. index < x)" by (simp add: first_index_None_iff)
  with None show ?thesis by (simp add: first_greater_def)
next
  case (Some k)
  then have "k < length array" "index < array ! k" by (simp_all add: first_index_Some_iff)
  then have "\<exists>x \<in> set array. index < x" using nth_mem[of k array] by blast
  with Some show ?thesis by (simp add: first_greater_def)
qed

lemma first_greater_Least:
  assumes "\<exists>x \<in> set array. index < x"
  shows "first_greater array index = int (LEAST p. p < length array \<and> index < array ! p)"
proof -
  from assms obtain k where k: "first_index (\<lambda>x. index < x) array = Some k"
    by (cases "first_index (\<lambda>x. index < x) array") (auto simp: first_index_None_iff)
  then have "k < length array \<and> index < array ! k" and "\<forall>j < k. \<not> index < array ! j"
    by (simp_all add: first_index_Some_iff)
  then have "(LEAST p. p < length array \<and> index < array ! p) = k"
    by (intro Least_equality) (auto simp: not_less[symmetric])
  with k show ?thesis by (simp add: first_greater_def)
qed

lemma first_greater_Min:
  assumes "sorted array" and "first_index (\<lambda>x. index < x) array = Some k"
  shows "array ! k = Min {x \<in> set array. index < x}"
proof -
  from assms(2) have k: "k < length array" "index < array ! k" "\<forall>j < k. \<not> index < array ! j"
    by (simp_all add: first_index_Some_iff)
  show ?thesis
  proof (rule Min_eqI[symmetric])
    show "finite {x \<in> set array. index < x}" by simp
    show "array ! k \<in> {x \<in> set array. index < x}" using k by simp
    fix y assume "y \<in> {x \<in> set array. index < x}"
    then obtain p where p: "p < length array" "array ! p = y" "index < y"
      by (auto simp: in_set_conv_nth)
    with k(3) have "k \<le> p" by (auto simp: not_less[symmetric])
    with assms(1) p show "array ! k \<le> y" by (auto intro: sorted_nth_mono)
  qed
qed

lemma entryNextUsedAt_correct:
  assumes "sorted array" and "page e = Some pg"
    and "trace_indices st (getPageNumber pg) = Some array"
  shows "entryNextUsedAt st e index =
     (if \<exists>x \<in> set array. index < x then Inr (Min {x \<in> set array. index < x})
      else Inl NoNextUse)"
proof (cases "first_index (\<lambda>x. index < x) array")
  case None
  then have "\<not> (\<exists>x \<in> set array. index < x)" by (simp add: first_index_None_iff)
  with None assms show ?thesis
    by (simp add: entryNextUsedAt_def findFirstElementGreaterThan_correct first_greater_def)
next
  case (Some k)
  then have k: "k < length array" "index < array ! k" by (simp_all add: first_index_Some_iff)
  then have ex: "\<exists>x \<in> set array. index < x" using nth_mem[of k array] by blast
  from k have "py_index array (int k) = Inr (array ! k)"
    by (simp add: py_index_in_range)
  with Some assms ex first_greater_Min[OF assms(1) Some] show ?thesis
    by (simp add: entryNextUsedAt_def findFirstElementGreaterThan_correct first_greater_def)
qed

text \<open>
  Claim C8. For a strictly ascending occurrence list, \<^verbatim>\<open>findFirstElementGreaterThan\<close>
  returns the position of the first element greater than the index, or \<open>-1\<close> when
  there is none, and \<^verbatim>\<open>entryNextUsedAt\<close> returns the smallest element of the list
  greater than the index; when no element is greater it raises (\<open>NoNextUse\<close>).
\<close>

theorem C8_next_use_lookup:
  assumes "sorted_wrt (<) array" and "page e = Some pg"
    and "trace_indices st (getPageNumber pg) = Some array"
  shows "findFirstElementGreaterThan array index =
           Inr (if \<exists>x \<in> set array. index < x
                then int (LEAST p. p < length array \<and> index < array ! p) else - 1)
         \<and> entryNextUsedAt st e index =
           (if \<exists>x \<in> set array. index < x then Inr (Min {x \<in> set array. index < x})
            else Inl NoNextUse)"
proof -
  from assms(1) have s: "sorted array" by (rule strict_sorted_imp_sorted)
  have "findFirstElementGreaterThan array index =
           Inr (if \<exists>x \<in> set array. index < x
                then int (LEAST p. p < length array \<and> index < array ! p) else - 1)"
  proof (cases "\<exists>x \<in> set array. index < x")
    case True
    then show ?thesis
      by (simp add: findFirstElementGreaterThan_correct[OF s] first_greater_Least)
  next
    case False
    with first_greater_nonneg_iff[of array index] have "first_greater array index = - 1"
      by blast
    with False show ?thesis by (simp add: findFirstElementGreaterThan_correct[OF s])
  qed
  with entryNextUsedAt_correct[OF s assms(2,3)] show ?thesis by simp
qed

theorem C8_next_use_lookup_witness:
  "sorted_wrt (<) [1, 4, 7 :: nat]
   \<and> page example_entry = Some (new_Page 0x5000 12)
   \<and> trace_indices example_table (getPageNumber (new_Page 0x5000 12)) = Some [1, 4, 7]
   \<and> findFirstElementGreaterThan [1, 4, 7] 4 = Inr 2
   \<and> entryNextUsedAt example_table example_entry 4 = Inr 7
   \<and> entryNextUsedAt example_table example_entry 7 = Inl NoNextUse"
proof -
  have h1: "sorted_wrt (<) [1, 4, 7 :: nat]" by simp
  have h2: "page example_entry = Some (new_Page 0x5000 12)"
    by (simp add: example_entry_def setPage_def new_PageTableEntry_def)
  have h3: "trace_indices example_table (getPageNumber (new_Page 0x5000 12)) = Some [1, 4, 7]"
    by (simp add: example_table_def new_PageTable_def getPageNumber_def new_Page_def)
  have l: "(LEAST p. p < length [1, 4, 7 :: nat] \<and> 4 < [1, 4, 7 :: nat] ! p) = 2"
    by (rule Least_equality) (auto simp: nth_Cons split: nat.splits)
  have m: "Min {x \<in> set [1, 4, 7 :: nat]. 4 < x} = 7"
    by (rule Min_eqI) auto
  from C8_next_use_lookup[OF h1 h2 h3, of 4] C8_next_use_lookup[OF h1 h2 h3, of 7] h1 h2 h3 l m
  show ?thesis by simp
qed
section \<open>The concrete scenario\<close>

text \<open>
  Claim C7. With offset width 12, two frames and the trace \<^verbatim>\<open>l 0x1000\<close>,
  \<^verbatim>\<open>l 0x2000\<close>, \<^verbatim>\<open>l 0x3000\<close>, \<^verbatim>\<open>l 0x1000\<close>, LRU reports 4 page faults and no
  write to disk, and OPT reports 3 page faults and no write to disk. Under OPT the
  third record evicts page 2 (the frames hold pages 1 and 3 afterwards) and the fourth
  record is a hit (the number of faults stays 3); under LRU the third record evicts
  page 1 and the fourth evicts page 2.
\<close>

theorem C7_concrete_scenario:
  "simulate scenario_trace 2 ''lru'' 12 =
     Inr \<lparr>memory_accesses = 4, total_page_faults = 4, total_writes_to_disk = 0\<rparr>
   \<and> simulate scenario_trace 2 ''opt'' 12 =
     Inr \<lparr>memory_accesses = 4, total_page_faults = 3, total_writes_to_disk = 0\<rparr>
   \<and> faults_and_frames (scenario_state ''opt'' 2) = Inr (2, [Some 1, Some 2])
   \<and> faults_and_frames (scenario_state ''opt'' 3) = Inr (3, [Some 1, Some 3])
   \<and> faults_and_frames (scenario_state ''opt'' 4) = Inr (3, [Some 1, Some 3])
   \<and> faults_and_frames (scenario_state ''lru'' 2) = Inr (2, [Some 1, Some 2])
   \<and> faults_and_frames (scenario_state ''lru'' 3) = Inr (3, [Some 3, Some 2])
   \<and> faults_and_frames (scenario_state ''lru'' 4) = Inr (4, [Some 3, Some 1])"
  by code_simp
section \<open>The victim of LRU\<close>

lemma lru_scan_first_min:
  assumes "first_min_access tbl S b" and "\<forall>s \<in> S. \<forall>j \<in> set js. s < j" and "sorted_wrt (<) js"
  shows "first_min_access tbl (S \<union> set js) (lru_scan tbl b js)"
  using assms
proof (induction js arbitrary: S b)
  case Nil
  then show ?case by simp
next
  case (Cons j js)
  let ?b = "if most_recent_access (tbl ! j) < most_recent_access (tbl ! b) then j else b"
  have 1: "first_min_access tbl (insert j S) ?b"
    using Cons.prems(1,2) unfolding first_min_access_def by (auto simp: not_less)
  have 2: "\<forall>s \<in> insert j S. \<forall>k \<in> set js. s < k"
    using Cons.prems(2,3) by auto
  have 3: "sorted_wrt (<) js" using Cons.prems(3) by simp
  from Cons.IH[OF 1 2 3] show ?case by simp
qed

lemma lru_scan_whole_table:
  assumes "tbl \<noteq> []"
  shows "first_min_access tbl {..<length tbl} (lru_scan tbl 0 [1..<length tbl])"
proof -
  have "first_min_access tbl {0} 0" by (simp add: first_min_access_def)
  moreover have "\<forall>s \<in> {0::nat}. \<forall>j \<in> set [1..<length tbl]. s < j" by simp
  moreover have "sorted_wrt (<) [1..<length tbl]" by simp
  ultimately have "first_min_access tbl ({0} \<union> set [1..<length tbl]) (lru_scan tbl 0 [1..<length tbl])"
    by (rule lru_scan_first_min)
  moreover have "{0} \<union> set [1..<length tbl] = {..<length tbl}"
    using assms by (auto simp: Suc_le_eq)
  ultimately show ?thesis by simp
qed

text \<open>
  Claim C3. \<^verbatim>\<open>LRUTable.evict\<close> on a table with at least one frame clears the frame with
  the smallest \<open>most_recent_access\<close>; when several frames share the smallest value,
  the one at the earliest position of the table is cleared: every frame before the
  victim has a strictly greater \<open>most_recent_access\<close>.
\<close>

theorem C3_lru_victim:
  assumes "policy_of st = LRUTable" and "table st \<noteq> []"
  shows "\<exists>v < length (table st).
           evict st index = Inr (clearEntry st v)
           \<and> (\<forall>j < length (table st).
                 most_recent_access (table st ! v) \<le> most_recent_access (table st ! j))
           \<and> (\<forall>j < v. most_recent_access (table st ! v) < most_recent_access (table st ! j))"
proof -
  let ?v = "lru_scan (table st) 0 [1..<length (table st)]"
  from assms(2) have fm: "first_min_access (table st) {..<length (table st)} ?v"
    by (rule lru_scan_whole_table)
  have "evict st index = Inr (clearEntry st ?v)"
    using assms by (simp add: evict_def evict_lru_def)
  with fm show ?thesis unfolding first_min_access_def by (intro exI[of _ ?v]) auto
qed

theorem C3_lru_victim_witness:
  "policy_of lru_example = LRUTable \<and> table lru_example \<noteq> []
   \<and> evict lru_example 6 = Inr (clearEntry lru_example 1)
   \<and> map most_recent_access (table lru_example) = [5, 2, 2]
   \<and> writes_to_disk (clearEntry lru_example 1) = 1"
proof -
  have h1: "policy_of lru_example = LRUTable" by (simp add: lru_example_def new_PageTable_def)
  have tb: "map most_recent_access (table lru_example) = [5, 2, 2]"
    by (simp add: lru_example_def entry_load_def entry_store_def setPage_def)
  then have h2: "table lru_example \<noteq> []" by auto
  have m: "most_recent_access (table lru_example ! 0) = 5"
    "most_recent_access (table lru_example ! 1) = 2"
    "most_recent_access (table lru_example ! 2) = 2"
    by (simp_all add: lru_example_def entry_load_def entry_store_def setPage_def)
  have len: "length (table lru_example) = 3" using tb by (metis length_map length_Cons list.size(3) numeral_3_eq_3)
  from C3_lru_victim[OF h1 h2, of 6] obtain v where v: "v < length (table lru_example)"
    "evict lru_example 6 = Inr (clearEntry lru_example v)"
    "\<forall>j < length (table lru_example).
        most_recent_access (table lru_example ! v) \<le> most_recent_access (table lru_example ! j)"
    "\<forall>j < v. most_recent_access (table lru_example ! v) < most_recent_access (table lru_example ! j)"
    by blast
  have "v = 1"
  proof -
    from v(1) len have "v = 0 \<or> v = 1 \<or> v = 2" by auto
    moreover have "v \<noteq> 0"
    proof
      assume "v = 0"
      with v(3)[rule_format, of 1] m len show False by simp
    qed
    moreover have "v \<noteq> 2"
    proof
      assume "v = 2"
      with v(4)[rule_format, of 1] m show False by simp
    qed
    ultimately show ?thesis by blast
  qed
  moreover have "writes_to_disk (clearEntry lru_example 1) = 1"
    by (simp add: clearEntry_def lru_example_def new_PageTable_def isDirty_def entry_store_def
        setPage_def Let_def)
  ultimately show ?thesis using h1 h2 v(2) tb by simp
qed

end
